theory Spec2Isabelle
  imports Complex_Main "HOL-Library.Sublist"
begin

section \<open>Backend and display types (src/lib/types/backend.ts)\<close>

text \<open>
  In the records, and in the statements that depend only on the order of numbers, a
  JavaScript \<open>number\<close> is an exact real; the rounding of IEEE doubles, \<open>NaN\<close> and the
  infinities enter with \<open>normalizeScore_ieee\<close> below, where they decide the result. Several interfaces of the source
  share a field name (\<open>score\<close>, \<open>asset\<close>, \<open>lastUpdated\<close>, \<open>maxRetries\<close>); the
  records below keep one use and prefix the others. The fields of \<open>HeatmapConfig\<close>
  that only the rendering reads (\<open>theme\<close>, \<open>showHeader\<close>, \<open>showControls\<close>) are left out.
\<close>

record Component =
  key :: string
  comp_score :: real

record Pillar =
  name :: string
  pillar_score :: real
  components :: "Component list"

record HeatmapResponse =
  asset :: string
  score :: real
  scale :: "real \<times> real"
  pillars :: "Pillar list"
  as_of :: string
  version :: string

datatype Bias = VeryBullish | Bullish | Neutral | Bearish | VeryBearish

text \<open>
  A \<open>Date\<close> is kept symbolic: either \<open>new Date(s)\<close> for a string \<open>s\<close>, or
  \<open>new Date()\<close> read at a clock value.
\<close>

datatype Date = DateOfString string | DateAt nat

record HeatmapAsset =
  asset_name :: string
  bias :: Bias
  asset_score :: real
  sentiment :: "string \<rightharpoonup> int"
  technical :: "string \<rightharpoonup> int"
  economic :: "string \<rightharpoonup> int"
  asset_lastUpdated :: Date

record HeatmapConfig =
  apiBaseUrl :: string
  cfg_refreshInterval :: "int option"
  assets :: "string list"
  cfg_maxRetries :: "int option"

record HeatmapState =
  data :: "HeatmapAsset list"
  loading :: bool
  error :: "string option"
  lastUpdated :: "Date option"

subsection \<open>normalizeScore and getBias\<close>

text \<open>
  \<open>normalizeScore\<close> divides by \<open>max - min\<close> without a guard. In HOL \<open>x / 0 = 0\<close>,
  in JavaScript the quotient is an infinity or \<open>NaN\<close>; the two agree only for
  \<open>min \<noteq> max\<close>, which is why every statement below that depends on the quotient
  assumes \<open>min < max\<close>.
\<close>

definition normalizeScore :: "real \<Rightarrow> real \<times> real \<Rightarrow> int" where
  "normalizeScore s sc =
     (case sc of (minv, maxv) \<Rightarrow>
        let normalized = (s - minv) / (maxv - minv) in
        if normalized \<le> 0.1 then - 2
        else if normalized \<le> 0.3 then - 1
        else if normalized \<le> 0.7 then 0
        else if normalized \<le> 0.9 then 1
        else 2)"

definition getBias :: "real \<Rightarrow> Bias" where
  "getBias s =
     (if s \<ge> 15 then VeryBullish
      else if s \<ge> 8 then Bullish
      else if s \<ge> - 7 then Neutral
      else if s \<ge> - 15 then Bearish
      else VeryBearish)"

subsection \<open>normalizeScore in double precision\<close>

text \<open>
  Where the rounding of a quotient decides the bucket, the function is modelled on
  IEEE 754 binary64 values, as the engine computes it. A double is a finite rational
  (\<open>Fin 0\<close> is the zero with positive sign), the zero with negative sign, one of the
  two infinities, or \<open>NaN\<close>.
\<close>

datatype Double = Fin rat | NegZero | PosInf | NegInf | NaN

text \<open>
  The binary exponent of a positive magnitude, looked for from \<open>1023\<close> downwards and held
  at \<open>-1022\<close> for every magnitude below \<open>2 powi (-1022)\<close>, where the subnormal values begin.
\<close>

fun expoFrom :: "nat \<Rightarrow> int \<Rightarrow> rat \<Rightarrow> int" where
  "expoFrom 0 k x = k"
| "expoFrom (Suc n) k x = (if 2 powi k \<le> x then k else expoFrom n (k - 1) x)"

definition expo :: "rat \<Rightarrow> int" where
  "expo x = expoFrom 2045 1023 x"

text \<open>Rounding to the nearest integer, a tie going to the even one.\<close>

definition roundHalfEven :: "rat \<Rightarrow> int" where
  "roundHalfEven z =
     (let f = \<lfloor>z\<rfloor>; r = z - of_int f in
      if r < 1 / 2 then f else if 1 / 2 < r then f + 1 else if even f then f else f + 1)"

text \<open>
  Rounding an exact result to the nearest double: 53 significant bits at the exponent
  of the magnitude, ties to even; a result of \<open>2 ^ 1024\<close> or more is an infinity, and a
  result of zero keeps the sign of what was rounded.
\<close>

definition roundToDouble :: "rat \<Rightarrow> Double" where
  "roundToDouble x =
     (let a = \<bar>x\<bar>;
          q = 2 powi (expo a - 52);
          y = of_int (roundHalfEven (a / q)) * q in
      if 2 powi 1024 \<le> y then (if 0 < x then PosInf else NegInf)
      else if y = 0 then (if x < 0 then NegZero else Fin 0)
      else Fin (if x < 0 then - y else y))"

fun isNeg :: "Double \<Rightarrow> bool" where
  "isNeg (Fin x) = (x < 0)"
| "isNeg NegZero = True"
| "isNeg NegInf = True"
| "isNeg PosInf = False"
| "isNeg NaN = False"

fun valueOf :: "Double \<Rightarrow> rat" where
  "valueOf (Fin x) = x"
| "valueOf d = 0"

fun isFinite :: "Double \<Rightarrow> bool" where
  "isFinite (Fin x) = True"
| "isFinite NegZero = True"
| "isFinite d = False"

fun isInfinite :: "Double \<Rightarrow> bool" where
  "isInfinite PosInf = True"
| "isInfinite NegInf = True"
| "isInfinite d = False"

definition isZero :: "Double \<Rightarrow> bool" where
  "isZero d \<longleftrightarrow> isFinite d \<and> valueOf d = 0"

definition signedInf :: "bool \<Rightarrow> Double" where
  "signedInf neg = (if neg then NegInf else PosInf)"

definition signedZero :: "bool \<Rightarrow> Double" where
  "signedZero neg = (if neg then NegZero else Fin 0)"

text \<open>
  Subtraction. An exact difference of zero is \<open>+0\<close>, except for \<open>-0 - +0\<close>; every other
  finite difference is rounded.
\<close>

definition dsub :: "Double \<Rightarrow> Double \<Rightarrow> Double" where
  "dsub a b =
     (if a = NaN \<or> b = NaN then NaN
      else if isInfinite a then (if b = a then NaN else a)
      else if isInfinite b then signedInf (b = PosInf)
      else if valueOf a = valueOf b then signedZero (a = NegZero \<and> b = Fin 0)
      else roundToDouble (valueOf a - valueOf b))"

text \<open>
  Division. The sign of an infinite or zero quotient is the exclusive or of the signs of
  the operands; \<open>0 / 0\<close> and \<open>\<infinity> / \<infinity>\<close> are \<open>NaN\<close>.
\<close>

definition ddiv :: "Double \<Rightarrow> Double \<Rightarrow> Double" where
  "ddiv a b =
     (if a = NaN \<or> b = NaN then NaN
      else if isInfinite a then (if isInfinite b then NaN else signedInf (isNeg a \<noteq> isNeg b))
      else if isInfinite b then signedZero (isNeg a \<noteq> isNeg b)
      else if isZero b then (if isZero a then NaN else signedInf (isNeg a \<noteq> isNeg b))
      else if isZero a then signedZero (isNeg a \<noteq> isNeg b)
      else roundToDouble (valueOf a / valueOf b))"

text \<open>The comparisons \<open><=\<close> and \<open><\<close>: false as soon as one side is \<open>NaN\<close>.\<close>

definition dle :: "Double \<Rightarrow> Double \<Rightarrow> bool" where
  "dle a b =
     (if a = NaN \<or> b = NaN then False
      else if a = NegInf \<or> b = PosInf then True
      else if a = PosInf \<or> b = NegInf then False
      else valueOf a \<le> valueOf b)"

definition dlt :: "Double \<Rightarrow> Double \<Rightarrow> bool" where
  "dlt a b \<longleftrightarrow> dle a b \<and> \<not> dle b a"

text \<open>
  The function of the source on doubles. A literal such as \<open>0.1\<close> denotes the double
  nearest to the decimal.
\<close>

definition normalizeScore_ieee :: "Double \<Rightarrow> Double \<times> Double \<Rightarrow> int" where
  "normalizeScore_ieee s sc =
     (case sc of (minv, maxv) \<Rightarrow>
        let normalized = ddiv (dsub s minv) (dsub maxv minv) in
        if dle normalized (roundToDouble (1 / 10)) then - 2
        else if dle normalized (roundToDouble (3 / 10)) then - 1
        else if dle normalized (roundToDouble (7 / 10)) then 0
        else if dle normalized (roundToDouble (9 / 10)) then 1
        else 2)"

text \<open>
  A value of the type is a double when rounding leaves it as it is.
\<close>

fun isDouble :: "Double \<Rightarrow> bool" where
  "isDouble (Fin x) = (roundToDouble x = Fin x)"
| "isDouble d = True"

subsection \<open>transformBackendResponse\<close>

text \<open>
  \<open>String.prototype.toLowerCase\<close> on the ASCII range. No name with a character outside
  ASCII lower-cases to \<open>sentiment\<close>, \<open>technical\<close> or \<open>economic\<close>, so the three
  comparisons of the \<open>switch\<close> are decided by this range.
\<close>

definition lowerChar :: "char \<Rightarrow> char" where
  "lowerChar c =
     (let n = (of_char c :: nat) in if 65 \<le> n \<and> n \<le> 90 then char_of (n + 32) else c)"

definition toLowerCase :: "string \<Rightarrow> string" where
  "toLowerCase s = map lowerChar s"

text \<open>
  The three \<open>Record<string, number>\<close> objects that the two nested \<open>forEach\<close> loops
  fill. Each starts as the object literal \<open>{}\<close>, whose prototype is
  \<open>Object.prototype\<close>. An assignment \<open>o[k] = v\<close> creates or overwrites the own property
  \<open>k\<close>, with one exception: \<open>__proto__\<close> is an accessor of the prototype, and its
  setter ignores a value that is neither an object nor \<open>null\<close>; assigning a number to it
  stores nothing. Every other name of \<open>Object.prototype\<close> is a writable data property,
  which the assignment shadows with an own property.
\<close>

definition setProperty :: "(string \<rightharpoonup> int) \<Rightarrow> string \<Rightarrow> int \<Rightarrow> (string \<rightharpoonup> int)" where
  "setProperty obj k v = (if k = ''__proto__'' then obj else obj(k \<mapsto> v))"

record Buckets =
  b_sentiment :: "string \<rightharpoonup> int"
  b_technical :: "string \<rightharpoonup> int"
  b_economic :: "string \<rightharpoonup> int"

definition emptyBuckets :: Buckets where
  "emptyBuckets = \<lparr>b_sentiment = Map.empty, b_technical = Map.empty, b_economic = Map.empty\<rparr>"

text \<open>The body of the inner callback: one component of one pillar.\<close>

definition putComponent :: "real \<times> real \<Rightarrow> Pillar \<Rightarrow> Buckets \<Rightarrow> Component \<Rightarrow> Buckets" where
  "putComponent sc pillar acc component =
     (let normalizedScore = normalizeScore (comp_score component) sc;
          n = toLowerCase (name pillar) in
      if n = ''sentiment'' then
        acc\<lparr>b_sentiment := setProperty (b_sentiment acc) (key component) normalizedScore\<rparr>
      else if n = ''technical'' then
        acc\<lparr>b_technical := setProperty (b_technical acc) (key component) normalizedScore\<rparr>
      else if n = ''economic'' then
        acc\<lparr>b_economic := setProperty (b_economic acc) (key component) normalizedScore\<rparr>
      else acc)"

text \<open>The body of the outer callback: all components of one pillar, in order.\<close>

definition putPillar :: "real \<times> real \<Rightarrow> Buckets \<Rightarrow> Pillar \<Rightarrow> Buckets" where
  "putPillar sc acc pillar = foldl (putComponent sc pillar) acc (components pillar)"

definition fillBuckets :: "HeatmapResponse \<Rightarrow> Buckets" where
  "fillBuckets response = foldl (putPillar (scale response)) emptyBuckets (pillars response)"

definition transformBackendResponse :: "HeatmapResponse \<Rightarrow> HeatmapAsset" where
  "transformBackendResponse response =
     (let b = fillBuckets response in
      \<lparr>asset_name = asset response,
       bias = getBias (score response),
       asset_score = score response,
       sentiment = b_sentiment b,
       technical = b_technical b,
       economic = b_economic b,
       asset_lastUpdated = DateOfString (as_of response)\<rparr>)"







section \<open>The API client (src/lib/api/client.ts)\<close>

subsection \<open>Decoded payloads and thrown values\<close>

text \<open>
  \<open>response.json()\<close> yields an untyped value. An object keeps its members in document
  order; reading a member takes the last one of that name, as \<open>JSON.parse\<close> does.
\<close>

datatype json =
    JNull
  | JBool bool
  | JNum real
  | JStr string
  | JArr "json list"
  | JObj "(string \<times> json) list"

text \<open>A thrown value is an \<open>Error\<close> with its message, or something that is not an \<open>Error\<close>.\<close>

datatype thrown = Error string | NonError

fun digitChar :: "nat \<Rightarrow> char" where
  "digitChar n = char_of (48 + n)"

fun decimal :: "nat \<Rightarrow> string" where
  "decimal n = (if n < 10 then [digitChar n] else decimal (n div 10) @ [digitChar (n mod 10)])"

declare decimal.simps [simp del]

text \<open>\<open>!data\<close> is true exactly for the falsy values.\<close>

fun truthy :: "json \<Rightarrow> bool" where
  "truthy JNull = False"
| "truthy (JBool b) = b"
| "truthy (JNum x) = (x \<noteq> 0)"
| "truthy (JStr s) = (s \<noteq> [])"
| "truthy (JArr xs) = True"
| "truthy (JObj kvs) = True"

text \<open>\<open>typeof data === 'object'\<close>: objects, arrays and \<open>null\<close>.\<close>

fun typeofObject :: "json \<Rightarrow> bool" where
  "typeofObject JNull = True"
| "typeofObject (JArr xs) = True"
| "typeofObject (JObj kvs) = True"
| "typeofObject v = False"

text \<open>
  \<open>field in data\<close> on own properties: the member names of an object, the indices and
  \<open>length\<close> of an array. (Only reached for objects and arrays. Properties inherited from
  the prototypes are left out; none of them is a required field.)
\<close>

fun hasField :: "string \<Rightarrow> json \<Rightarrow> bool" where
  "hasField f (JObj kvs) = (f \<in> set (map fst kvs))"
| "hasField f (JArr xs) = (f = ''length'' \<or> f \<in> set (map decimal [0..<length xs]))"
| "hasField f v = False"

text \<open>\<open>data.f\<close>, with \<open>None\<close> for \<open>undefined\<close>. Only reached for objects.\<close>

fun getField :: "string \<Rightarrow> json \<Rightarrow> json option" where
  "getField f (JObj kvs) = map_of (rev kvs) f"
| "getField f v = None"

fun isArray :: "json option \<Rightarrow> bool" where
  "isArray (Some (JArr xs)) = True"
| "isArray v = False"

fun arrayLength :: "json option \<Rightarrow> nat" where
  "arrayLength (Some (JArr xs)) = length xs"
| "arrayLength v = 0"

subsection \<open>validateResponse\<close>

definition required :: "string list" where
  "required = [''asset'', ''score'', ''scale'', ''pillars'', ''as_of'', ''version'']"

definition validateResponse :: "json \<Rightarrow> thrown + json" where
  "validateResponse d =
     (if \<not> truthy d \<or> \<not> typeofObject d then Inl (Error ''Invalid response format'')
      else case find (\<lambda>f. \<not> hasField f d) required of
        Some f \<Rightarrow> Inl (Error (''Missing required field: '' @ f))
      | None \<Rightarrow>
          if \<not> isArray (getField ''pillars'' d) then Inl (Error ''Pillars must be an array'')
          else if \<not> isArray (getField ''scale'' d) \<or> arrayLength (getField ''scale'' d) \<noteq> 2
          then Inl (Error ''Scale must be a tuple of two numbers'')
          else Inr d)"

subsection \<open>fetchWithRetry\<close>

text \<open>
  What one \<open>fetch\<close> does is the environment's choice: the promise rejects, or it resolves
  with a response whose \<open>json()\<close> in turn rejects or yields a decoded payload.
\<close>

record Response =
  ok :: bool
  status :: nat
  statusText :: string
  body :: "thrown + json"

datatype FetchOutcome = FetchRejected thrown | FetchResolved Response

text \<open>The \<open>try\<close> block of \<open>fetchWithRetry\<close>: one attempt.\<close>

definition attempt :: "FetchOutcome \<Rightarrow> thrown + json" where
  "attempt out =
     (case out of
        FetchRejected e \<Rightarrow> Inl e
      | FetchResolved response \<Rightarrow>
          if \<not> ok response
          then Inl (Error (''HTTP '' @ decimal (status response) @ '': '' @ statusText response))
          else (case body response of Inl e \<Rightarrow> Inl e | Inr d \<Rightarrow> validateResponse d))"

text \<open>
  The network answers the fetch that a call chain issues at recursion depth \<open>retries\<close>
  for a URL. The function returns, with its result, the trace of what it did: every
  \<open>fetch\<close> and every \<open>delay\<close> with its milliseconds.
\<close>

type_synonym Network = "string \<Rightarrow> nat \<Rightarrow> FetchOutcome"

datatype Event = Fetch string | Delay nat

function fetchWithRetry :: "Network \<Rightarrow> int \<Rightarrow> string \<Rightarrow> nat \<Rightarrow> Event list \<times> (thrown + json)" where
  "fetchWithRetry net maxRetries url retries =
     (case attempt (net url retries) of
        Inr d \<Rightarrow> ([Fetch url], Inr d)
      | Inl e \<Rightarrow>
          if int retries < maxRetries
          then (case fetchWithRetry net maxRetries url (retries + 1) of
                  (tr, r) \<Rightarrow> (Fetch url # Delay (2 ^ retries * 1000) # tr, r))
          else ([Fetch url], Inl e))"
  by pat_completeness auto
termination
  by (relation "measure (\<lambda>(net, maxRetries, url, retries). nat (maxRetries - int retries))") auto

declare fetchWithRetry.simps [simp del]

subsection \<open>The client object\<close>

record HeatmapApiClient =
  baseUrl :: string
  maxRetries :: int

text \<open>\<open>replace(/\/$/, '')\<close> removes one slash at the very end.\<close>

definition stripTrailingSlash :: "string \<Rightarrow> string" where
  "stripTrailingSlash s = (if s \<noteq> [] \<and> last s = CHR ''/'' then butlast s else s)"

text \<open>\<open>config.maxRetries || 3\<close>: the default stands in for every falsy value.\<close>

definition newHeatmapApiClient :: "HeatmapConfig \<Rightarrow> HeatmapApiClient" where
  "newHeatmapApiClient config =
     \<lparr>baseUrl = stripTrailingSlash (apiBaseUrl config),
      maxRetries = (case cfg_maxRetries config of
                      None \<Rightarrow> 3
                    | Some n \<Rightarrow> if n = 0 then 3 else n)\<rparr>"

text \<open>\<open>encodeURIComponent\<close> is a function of the platform and is passed in.\<close>

definition getHeatmap ::
  "(string \<Rightarrow> string) \<Rightarrow> Network \<Rightarrow> HeatmapApiClient \<Rightarrow> string \<Rightarrow> Event list \<times> (thrown + json)" where
  "getHeatmap encodeURIComponent net this a =
     (let url = baseUrl this @ ''/heatmap?asset='' @ encodeURIComponent a
      in fetchWithRetry net (maxRetries this) url 0)"

subsection \<open>getMultipleHeatmaps\<close>

text \<open>
  \<open>Promise.allSettled\<close> keeps one entry per promise, at the promise's position. The
  function is the same in both clients of the source; it is written over any
  \<open>getHeatmap\<close>, which is told the position of the call it serves, so that two calls for
  one symbol may end differently.
\<close>

datatype 'a Settled = Fulfilled 'a | Rejected thrown

definition allSettled :: "(thrown + 'a) list \<Rightarrow> 'a Settled list" where
  "allSettled ps = map (\<lambda>p. case p of Inl e \<Rightarrow> Rejected e | Inr v \<Rightarrow> Fulfilled v) ps"

fun isFulfilled :: "'a Settled \<Rightarrow> bool" where
  "isFulfilled (Fulfilled v) = True"
| "isFulfilled (Rejected e) = False"

text \<open>\<open>result.value\<close>; a rejected entry has none, and the filter lets none through.\<close>

fun settledValue :: "'a Settled \<Rightarrow> 'a option" where
  "settledValue (Fulfilled v) = Some v"
| "settledValue (Rejected e) = None"

definition getMultipleHeatmaps ::
  "(nat \<Rightarrow> string \<Rightarrow> thrown + 'r) \<Rightarrow> string list \<Rightarrow> thrown + 'r list" where
  "getMultipleHeatmaps getHeatmapAt as =
     (let promises = map (\<lambda>(i, a). getHeatmapAt i a) (enumerate 0 as);
          results = allSettled promises
      in Inr (map (the \<circ> settledValue) (filter isFulfilled results)))"

section \<open>The polling component (EdgeFinderHeatmap)\<close>

subsection \<open>One refresh cycle\<close>

definition initialState :: HeatmapState where
  "initialState = \<lparr>data = [], loading = True, error = None, lastUpdated = None\<rparr>"

text \<open>The first statement of \<open>loadData\<close>, before the \<open>await\<close>.\<close>

definition loadData_begin :: "HeatmapState \<Rightarrow> HeatmapState" where
  "loadData_begin s = s\<lparr>loading := True, error := None\<rparr>"

definition errorMessage :: "thrown \<Rightarrow> string" where
  "errorMessage e = (case e of Error m \<Rightarrow> m | NonError \<Rightarrow> ''Unknown error'')"

text \<open>
  The rest of \<open>loadData\<close>, run when the awaited batch settles: with the responses, or
  with what was thrown; \<open>now\<close> is the clock read by \<open>new Date()\<close>.
\<close>

definition loadData_settle ::
  "thrown + HeatmapResponse list \<Rightarrow> nat \<Rightarrow> HeatmapState \<Rightarrow> HeatmapState" where
  "loadData_settle outcome now s =
     (case outcome of
        Inr responses \<Rightarrow>
          s\<lparr>data := map transformBackendResponse responses,
            loading := False,
            lastUpdated := Some (DateAt now)\<rparr>
      | Inl e \<Rightarrow> s\<lparr>loading := False, error := Some (errorMessage e)\<rparr>)"

text \<open>A whole cycle that nothing interleaves with.\<close>

definition loadData :: "thrown + HeatmapResponse list \<Rightarrow> nat \<Rightarrow> HeatmapState \<Rightarrow> HeatmapState" where
  "loadData outcome now s = loadData_settle outcome now (loadData_begin s)"

subsection \<open>Lifecycle\<close>

text \<open>
  The component's variables are \<open>state\<close> and \<open>refreshInterval\<close>. Around them the model
  keeps what the runtime knows: which interval timer is armed, how many \<open>loadData\<close>
  calls are waiting at their \<open>await\<close>, and where the component is in its life.
  \<open>setInterval\<close> returns a handle chosen by the runtime, greater than zero;
  the \<open>on:click\<close> handlers exist while the component is mounted.
\<close>

datatype Phase = Created | Mounted | Destroyed

record Widget =
  state :: HeatmapState
  refreshInterval :: "nat option"
  armed :: "nat option"
  inflight :: nat
  phase :: Phase

definition initialWidget :: Widget where
  "initialWidget =
     \<lparr>state = initialState, refreshInterval = None, armed = None, inflight = 0, phase = Created\<rparr>"

datatype WidgetEvent =
    Mount nat
  | Tick
  | Click
  | Settle "thrown + HeatmapResponse list" nat
  | Destroy

definition callLoadData :: "Widget \<Rightarrow> Widget" where
  "callLoadData w = w\<lparr>state := loadData_begin (state w), inflight := inflight w + 1\<rparr>"

definition clearInterval :: "nat \<Rightarrow> Widget \<Rightarrow> Widget" where
  "clearInterval h w = (if armed w = Some h then w\<lparr>armed := None\<rparr> else w)"

definition onMount :: "HeatmapConfig \<Rightarrow> nat \<Rightarrow> Widget \<Rightarrow> Widget" where
  "onMount config h w =
     (let w1 = callLoadData w in
      case cfg_refreshInterval config of
        None \<Rightarrow> w1
      | Some n \<Rightarrow>
          if n \<noteq> 0 \<and> n > 0 then w1\<lparr>refreshInterval := Some h, armed := Some h\<rparr> else w1)"

definition onDestroy :: "Widget \<Rightarrow> Widget" where
  "onDestroy w =
     (case refreshInterval w of
        None \<Rightarrow> w
      | Some h \<Rightarrow> if h \<noteq> 0 then clearInterval h w else w)"

fun step :: "HeatmapConfig \<Rightarrow> WidgetEvent \<Rightarrow> Widget \<Rightarrow> Widget option" where
  "step config (Mount h) w =
     (if phase w = Created \<and> h > 0 then Some ((onMount config h w)\<lparr>phase := Mounted\<rparr>) else None)"
| "step config Tick w = (if armed w \<noteq> None then Some (callLoadData w) else None)"
| "step config Click w = (if phase w = Mounted then Some (callLoadData w) else None)"
| "step config (Settle outcome now) w =
     (if inflight w > 0
      then Some (w\<lparr>state := loadData_settle outcome now (state w), inflight := inflight w - 1\<rparr>)
      else None)"
| "step config Destroy w =
     (if phase w = Mounted then Some ((onDestroy w)\<lparr>phase := Destroyed\<rparr>) else None)"

fun exec :: "HeatmapConfig \<Rightarrow> WidgetEvent list \<Rightarrow> Widget \<Rightarrow> Widget option" where
  "exec config [] w = Some w"
| "exec config (e # es) w =
     (case step config e w of None \<Rightarrow> None | Some w' \<Rightarrow> exec config es w')"

section \<open>Auxiliary notions for the statements\<close>

text \<open>
  The trace of a call chain in which every attempt fails, from depth \<open>r\<close> up to the last
  attempt at depth \<open>m\<close>: a fetch and a delay of \<open>2 ^ k\<close> seconds for each \<open>k\<close> below
  \<open>m\<close>, then the last fetch.
\<close>

definition backoffTrace :: "string \<Rightarrow> nat \<Rightarrow> nat \<Rightarrow> Event list" where
  "backoffTrace url r m =
     concat (map (\<lambda>k. [Fetch url, Delay (2 ^ k * 1000)]) [r..<m]) @ [Fetch url]"

definition fetches :: "Event list \<Rightarrow> nat" where
  "fetches tr = length [u. Fetch u \<leftarrow> tr]"

definition delays :: "Event list \<Rightarrow> nat list" where
  "delays tr = [d. Delay d \<leftarrow> tr]"

text \<open>A server that answers every request with status 500.\<close>

definition server500 :: Network where
  "server500 url k =
     FetchResolved \<lparr>ok = False, status = 500, statusText = ''Internal Server Error'',
                    body = Inr JNull\<rparr>"

definition configWith :: "int option \<Rightarrow> HeatmapConfig" where
  "configWith n =
     \<lparr>apiBaseUrl = ''http://h/'', cfg_refreshInterval = Some 30000,
      assets = [''EUR''], cfg_maxRetries = n\<rparr>"


text \<open>A payload that has every required member and whose \<open>scale\<close> holds two strings.\<close>

definition looseScale :: json where
  "looseScale =
     JObj [(''asset'', JStr ''EUR''), (''score'', JNum 1),
           (''scale'', JArr [JStr ''a'', JStr ''b'']), (''pillars'', JArr []),
           (''as_of'', JStr ''2025-08-01T00:00:00Z''), (''version'', JStr ''1'')]"

text \<open>
  The invariant of the lifecycle: a timer is armed only while the component is mounted,
  and then \<open>refreshInterval\<close> holds its handle, which is not zero.
\<close>

definition wellTimed :: "Widget \<Rightarrow> bool" where
  "wellTimed w \<longleftrightarrow>
     armed w = None \<or> (phase w = Mounted \<and> refreshInterval w = armed w \<and> armed w \<noteq> Some 0)"

text \<open>
  The component after \<open>onMount\<close> and \<open>onDestroy\<close> with the first cycle still waiting.
\<close>

definition destroyedInFlight :: Widget where
  "destroyedInFlight =
     \<lparr>state = initialState, refreshInterval = Some 1, armed = None, inflight = 1,
      phase = Destroyed\<rparr>"

section \<open>Score normalisation and bias\<close>




text \<open>
  C3: \<open>getBias\<close> classifies by fixed thresholds that no scale enters: Very Bullish from
  \<open>15\<close> up, Bullish on \<open>[8, 15)\<close>, Neutral on \<open>[-7, 8)\<close>, Bearish on \<open>[-15, -7)\<close>, Very
  Bearish below \<open>-15\<close>; with the six boundary values of the specification.
\<close>

theorem getBias_thresholds:
  "(getBias s = VeryBullish \<longleftrightarrow> s \<ge> 15)
   \<and> (getBias s = Bullish \<longleftrightarrow> 8 \<le> s \<and> s < 15)
   \<and> (getBias s = Neutral \<longleftrightarrow> - 7 \<le> s \<and> s < 8)
   \<and> (getBias s = Bearish \<longleftrightarrow> - 15 \<le> s \<and> s < - 7)
   \<and> (getBias s = VeryBearish \<longleftrightarrow> s < - 15)
   \<and> getBias 15 = VeryBullish \<and> getBias 8 = Bullish \<and> getBias 7 = Neutral
   \<and> getBias (- 7) = Neutral \<and> getBias (- 8) = Bearish \<and> getBias (- 16) = VeryBearish"
  by (simp add: getBias_def)

section \<open>Score normalisation in double precision\<close>

lemma expoFrom_bounds: "k - int n \<le> expoFrom n k x \<and> expoFrom n k x \<le> k"
proof (induction n arbitrary: k)
  case 0
  show ?case by simp
next
  case (Suc n)
  show ?case using Suc [of "k - 1"] by auto
qed

lemma two_powi_less_imp: "(2::rat) powi a < 2 powi b \<Longrightarrow> a < b"
proof (rule ccontr)
  assume lt: "(2::rat) powi a < 2 powi b" and "\<not> a < b"
  then have "b \<le> a" by simp
  then have "(2::rat) powi b \<le> 2 powi a" by (intro power_int_increasing) simp_all
  then show False using lt by simp
qed

lemma expoFrom_hit:
  "k - int n \<le> m \<Longrightarrow> m \<le> k \<Longrightarrow> 2 powi m \<le> x \<Longrightarrow> x < 2 powi (m + 1) \<Longrightarrow> expoFrom n k x = m"
proof (induction n arbitrary: k)
  case 0
  then show ?case by simp
next
  case (Suc n)
  show ?case
  proof (cases "2 powi k \<le> x")
    case True
    then have "(2::rat) powi k < 2 powi (m + 1)" using Suc.prems(4) by simp
    then have "k < m + 1" by (rule two_powi_less_imp)
    then show ?thesis using True Suc.prems(2) by simp
  next
    case False
    then have "(2::rat) powi m < 2 powi k" using Suc.prems(3) by simp
    then have "m < k" by (rule two_powi_less_imp)
    then show ?thesis using False Suc.IH [of "k - 1"] Suc.prems by simp
  qed
qed

lemma expoFrom_low: "x < 2 powi (k - int n) \<Longrightarrow> expoFrom n k x = k - int n"
proof (induction n arbitrary: k)
  case 0
  then show ?case by simp
next
  case (Suc n)
  have "(2::rat) powi (k - int (Suc n)) \<le> 2 powi k"
    by (intro power_int_increasing) simp_all
  then have "\<not> 2 powi k \<le> x" using Suc.prems by simp
  then show ?case using Suc.IH [of "k - 1"] Suc.prems by (simp add: algebra_simps)
qed

lemma expoFrom_le: "2 powi (k - int n) \<le> x \<Longrightarrow> 2 powi (expoFrom n k x) \<le> x"
proof (induction n arbitrary: k)
  case 0
  then show ?case by simp
next
  case (Suc n)
  then show ?case using Suc.IH [of "k - 1"] by (simp add: algebra_simps)
qed

lemma expo_eq:
  "- 1022 \<le> m \<Longrightarrow> m \<le> 1023 \<Longrightarrow> 2 powi m \<le> x \<Longrightarrow> x < 2 powi (m + 1) \<Longrightarrow> expo x = m"
  unfolding expo_def by (rule expoFrom_hit) simp_all

lemma expo_low: "x < 2 powi (- 1022) \<Longrightarrow> expo x = - 1022"
  unfolding expo_def using expoFrom_low [of x 1023 2045] by simp

lemma expo_ge: "- 1022 \<le> expo x"
  unfolding expo_def using expoFrom_bounds [of 1023 2045 x] by simp

lemma expo_le: "2 powi (- 1022) \<le> x \<Longrightarrow> 2 powi (expo x) \<le> x"
  unfolding expo_def using expoFrom_le [of 1023 2045 x] by simp

lemma roundHalfEven_of_int: "roundHalfEven (of_int n) = n"
  by (simp add: roundHalfEven_def)

lemma roundHalfEven_ge: "of_int n \<le> z \<Longrightarrow> n \<le> roundHalfEven z"
proof -
  assume "of_int n \<le> z"
  then have "n \<le> \<lfloor>z\<rfloor>" by (simp add: le_floor_iff)
  then show ?thesis by (auto simp: roundHalfEven_def Let_def)
qed

lemma roundHalfEven_near: "\<bar>z - of_int n\<bar> < 1 / 2 \<Longrightarrow> roundHalfEven z = n"
proof -
  assume near: "\<bar>z - of_int n\<bar> < 1 / 2"
  show ?thesis
  proof (cases "of_int n \<le> z")
    case True
    then have "\<lfloor>z\<rfloor> = n" using near by (intro floor_unique) (simp_all add: abs_less_iff)
    then show ?thesis using near True by (simp add: roundHalfEven_def Let_def abs_less_iff)
  next
    case False
    then have "\<lfloor>z\<rfloor> = n - 1" using near by (intro floor_unique) (simp_all add: abs_less_iff)
    then show ?thesis using near False by (simp add: roundHalfEven_def Let_def abs_less_iff)
  qed
qed

lemma roundToDouble_eval:
  assumes "0 < x" "- 1022 \<le> m" "m \<le> 1023" "2 powi m \<le> x" "x < 2 powi (m + 1)"
    and "\<bar>x / 2 powi (m - 52) - of_int n\<bar> < 1 / 2"
    and "of_int n * 2 powi (m - 52) < (2::rat) powi 1024"
  shows "roundToDouble x = Fin (of_int n * 2 powi (m - 52))"
proof -
  have e: "expo \<bar>x\<bar> = m" using assms by (intro expo_eq) simp_all
  have "1 \<le> x / 2 powi (m - 52)"
  proof -
    have "(2::rat) powi (m - 52) \<le> 2 powi m" by (intro power_int_increasing) simp_all
    then have "2 powi (m - 52) \<le> x" using assms(4) by simp
    then show ?thesis by (simp add: field_simps)
  qed
  have r: "roundHalfEven (x / 2 powi (m - 52)) = n"
    using assms(6) by (rule roundHalfEven_near)
  then have "1 \<le> n" using roundHalfEven_ge [of 1 "x / 2 powi (m - 52)"] \<open>1 \<le> x / 2 powi (m - 52)\<close> by simp
  then have pos: "0 < of_int n * (2::rat) powi (m - 52)" by simp
  show ?thesis
    using assms(1,7) r pos e by (simp add: roundToDouble_def Let_def)
qed

lemma roundToDouble_0: "roundToDouble 0 = Fin 0"
  by (simp add: roundToDouble_def Let_def roundHalfEven_def)

lemma roundToDouble_1: "roundToDouble 1 = Fin 1"
  using roundToDouble_eval [of 1 0 "2 ^ 52"]
  by simp

lemma roundToDouble_half: "roundToDouble (1 / 2) = Fin (1 / 2)"
  using roundToDouble_eval [of "1 / 2" "- 1" "2 ^ 52"]
  by simp

lemma lit01: "roundToDouble (1 / 10) = Fin (3602879701896397 / 2 ^ 55)"
  using roundToDouble_eval [of "1 / 10" "- 4" 7205759403792794]
  by simp

lemma lit03: "roundToDouble (3 / 10) = Fin (5404319552844595 / 2 ^ 54)"
  using roundToDouble_eval [of "3 / 10" "- 2" 5404319552844595]
  by simp

lemma lit07: "roundToDouble (7 / 10) = Fin (3152519739159347 / 2 ^ 52)"
  using roundToDouble_eval [of "7 / 10" "- 1" 6305039478318694]
  by simp

lemma lit09: "roundToDouble (9 / 10) = Fin (8106479329266893 / 2 ^ 53)"
  using roundToDouble_eval [of "9 / 10" "- 1" 8106479329266893]
  by simp


lemma two_powi_split: "- 1074 \<le> e \<Longrightarrow> (2::rat) powi e = of_int (2 ^ nat (e + 1074)) * 2 powi (- 1074)"
proof -
  assume "- 1074 \<le> e"
  then have "e = int (nat (e + 1074)) + (- 1074)" by arith
  then have "(2::rat) powi e = 2 powi (int (nat (e + 1074)) + (- 1074))"
    by (rule arg_cong)
  also have "\<dots> = 2 powi int (nat (e + 1074)) * 2 powi (- 1074)"
    by (rule power_int_add) simp
  finally show ?thesis
    by (simp only: power_int_of_nat of_int_power of_int_numeral)
qed

lemma two_neq_zero_rat: "(2::rat) \<noteq> 0"
  by simp

lemma roundToDouble_grid:
  assumes "roundToDouble x = Fin y"
  shows "\<exists>n::int. y = of_int n * 2 powi (- 1074)"
proof -
  define e where "e = expo \<bar>x\<bar> - 52"
  define r where "r = roundHalfEven (\<bar>x\<bar> / 2 powi e)"
  have e: "- 1074 \<le> e" using expo_ge [of "\<bar>x\<bar>"] by (simp add: e_def)
  have "y = 0 \<or> y = of_int r * 2 powi e \<or> y = - (of_int r * 2 powi e)"
    using assms by (auto simp: roundToDouble_def Let_def e_def r_def split: if_splits)
  then consider "y = 0" | "y = of_int r * 2 powi e" | "y = - (of_int r * 2 powi e)" by blast
  then show ?thesis
  proof cases
    case 1
    then have "y = of_int 0 * 2 powi (- 1074)" by simp
    then show ?thesis by blast
  next
    case 2
    then have "y = of_int (r * 2 ^ nat (e + 1074)) * 2 powi (- 1074)"
      by (simp add: two_powi_split [OF e])
    then show ?thesis by blast
  next
    case 3
    then have "y = of_int (- (r * 2 ^ nat (e + 1074))) * 2 powi (- 1074)"
      by (simp add: two_powi_split [OF e])
    then show ?thesis by blast
  qed
qed

lemma valueOf_grid:
  assumes "isDouble d"
  shows "\<exists>n::int. valueOf d = of_int n * 2 powi (- 1074)"
proof (cases d)
  case (Fin x)
  then show ?thesis using assms roundToDouble_grid [of x x] by simp
qed (auto intro!: exI [of _ 0])

lemma roundToDouble_pos:
  assumes "2 powi (- 1074) \<le> x"
  shows "roundToDouble x = PosInf \<or> (\<exists>y>0. roundToDouble x = Fin y)"
proof -
  have "(0::rat) < 2 powi (- 1074)" by (rule zero_less_power_int) simp
  then have x: "0 < x" using assms by (rule less_le_trans)
  then have ax: "\<bar>x\<bar> = x" by simp
  define q :: rat where "q = 2 powi (expo x - 52)"
  define r where "r = roundHalfEven (x / q)"
  have q: "0 < q" unfolding q_def by (rule zero_less_power_int) simp
  have "q \<le> x"
  proof (cases "2 powi (- 1022) \<le> x")
    case True
    have "q \<le> 2 powi (expo x)"
      unfolding q_def by (intro power_int_increasing) simp_all
    also have "\<dots> \<le> x" using True by (rule expo_le)
    finally show ?thesis .
  next
    case False
    then have "x < 2 powi (- 1022)" by (simp only: not_le)
    then have "expo x = - 1022" by (rule expo_low)
    then have "q = 2 powi (- 1074)" unfolding q_def by (simp only:) simp
    then show ?thesis using assms by (simp only:)
  qed
  then have "1 \<le> x / q" using q by (simp add: field_simps)
  then have r1: "1 \<le> r"
    unfolding r_def using roundHalfEven_ge [of 1 "x / q"] by simp
  then have pos: "0 < of_int r * q" using q by simp
  have "roundToDouble x =
          (if 2 powi 1024 \<le> of_int r * q then PosInf else Fin (of_int r * q))"
    using x pos
    by (simp only: roundToDouble_def Let_def ax q_def [symmetric] r_def [symmetric])
       (simp only: if_True if_False not_less_iff_gr_or_eq less_not_sym [OF x] less_irrefl
          not_sym [OF less_imp_neq [OF pos]] split: if_splits)
  then show ?thesis using pos by (cases "2 powi 1024 \<le> of_int r * q") (simp_all only: if_True if_False, blast+)
qed

lemma dlt_finite:
  assumes "isFinite a" "isFinite b"
  shows "dlt a b \<longleftrightarrow> valueOf a < valueOf b"
  using assms by (cases a; cases b) (auto simp: dlt_def dle_def)

lemma dsub_width:
  assumes "isDouble a" "isDouble b" "isFinite a" "isFinite b" "dlt a b"
  shows "dsub b a = PosInf \<or> (\<exists>y>0. dsub b a = Fin y)"
proof -
  have lt: "valueOf a < valueOf b" using assms dlt_finite by simp
  obtain na nb :: int where na: "valueOf a = of_int na * 2 powi (- 1074)"
    and nb: "valueOf b = of_int nb * 2 powi (- 1074)"
    using valueOf_grid assms(1,2) by blast
  have "of_int na * (2::rat) powi (- 1074) < of_int nb * 2 powi (- 1074)"
    using lt na nb by simp
  then have "na < nb" by (simp add: mult_less_cancel_right)
  then have "(1::rat) \<le> of_int (nb - na)" by simp
  then have "1 * (2::rat) powi (- 1074) \<le> of_int (nb - na) * 2 powi (- 1074)"
    by (intro mult_right_mono) simp_all
  then have ge: "2 powi (- 1074) \<le> valueOf b - valueOf a"
    by (simp add: na nb algebra_simps)
  have "dsub b a = roundToDouble (valueOf b - valueOf a)"
    using assms(3,4) lt by (cases a; cases b) (auto simp: dsub_def)
  then show ?thesis using roundToDouble_pos [OF ge] by simp
qed

lemma dle_lits:
  "dle (Fin 0) (roundToDouble (1 / 10))"
  "\<not> dle (Fin 1) (roundToDouble (1 / 10))"
  "\<not> dle (Fin 1) (roundToDouble (3 / 10))"
  "\<not> dle (Fin 1) (roundToDouble (7 / 10))"
  "\<not> dle (Fin 1) (roundToDouble (9 / 10))"
  "\<not> dle (Fin (1 / 2)) (roundToDouble (1 / 10))"
  "\<not> dle (Fin (1 / 2)) (roundToDouble (3 / 10))"
  "dle (Fin (1 / 2)) (roundToDouble (7 / 10))"
  "\<not> dle NaN d"
  by (simp_all add: lit01 lit03 lit07 lit09 dle_def)

lemma normalizeScore_ieee_min:
  assumes "isDouble mn" "isDouble mx" "isFinite mn" "isFinite mx" "dlt mn mx"
  shows "normalizeScore_ieee mn (mn, mx) = - 2"
proof -
  have z: "dsub mn mn = Fin 0"
    using assms(3) by (cases mn) (simp_all add: dsub_def signedZero_def)
  have "ddiv (Fin 0) (dsub mx mn) = Fin 0"
    using dsub_width [OF assms] by (auto simp: ddiv_def isZero_def signedZero_def)
  then show ?thesis
    by (simp add: normalizeScore_ieee_def z dle_lits)
qed

lemma normalizeScore_ieee_max:
  assumes "isDouble mn" "isDouble mx" "isFinite mn" "isFinite mx" "dlt mn mx"
  shows "normalizeScore_ieee mx (mn, mx) = 2"
proof -
  have "ddiv (dsub mx mn) (dsub mx mn) = NaN \<or> ddiv (dsub mx mn) (dsub mx mn) = Fin 1"
    using dsub_width [OF assms] by (auto simp: ddiv_def isZero_def roundToDouble_1)
  then show ?thesis
    by (auto simp: normalizeScore_ieee_def dle_lits)
qed

lemma normalizeScore_ieee_half:
  assumes "0 < h" "dsub s mn = Fin h" "dsub mx mn = Fin (2 * h)"
  shows "normalizeScore_ieee s (mn, mx) = 0"
proof -
  have "ddiv (Fin h) (Fin (2 * h)) = Fin (1 / 2)"
    using assms(1) by (simp add: ddiv_def isZero_def roundToDouble_half)
  then show ?thesis
    by (simp add: normalizeScore_ieee_def assms dle_lits)
qed


lemma expoFrom_upper: "x < 2 powi (k + 1) \<Longrightarrow> x < 2 powi (expoFrom n k x + 1)"
proof (induction n arbitrary: k)
  case 0
  then show ?case by simp
next
  case (Suc n)
  show ?case
  proof (cases "2 powi k \<le> x")
    case True
    then show ?thesis using Suc.prems by simp
  next
    case False
    then have "x < 2 powi (k - 1 + 1)" by simp
    then have "x < 2 powi (expoFrom n (k - 1) x + 1)" by (rule Suc.IH)
    then show ?thesis using False by simp
  qed
qed

lemma expo_upper: "x < 2 powi 1024 \<Longrightarrow> x < 2 powi (expo x + 1)"
  unfolding expo_def using expoFrom_upper [of x 1023 2045] by simp

lemma expo_top: "2 powi 1023 \<le> x \<Longrightarrow> expo x = 1023"
proof -
  assume "2 powi 1023 \<le> x"
  then have "expoFrom (Suc 2044) 1023 x = 1023" by (simp only: expoFrom.simps if_True)
  then show ?thesis by (simp add: expo_def)
qed

lemma two_powi_Suc: "(2::rat) powi (a + 1) = 2 * 2 powi a"
  using power_int_add_1 [of "2::rat" a] by simp

lemma roundToDouble_unfold_pos:
  assumes x: "0 < x" and r1: "1 \<le> roundHalfEven (x / 2 powi (expo x - 52))"
  shows "roundToDouble x =
           (if (2::rat) powi 1024
                 \<le> of_int (roundHalfEven (x / 2 powi (expo x - 52))) * 2 powi (expo x - 52)
            then PosInf
            else Fin (of_int (roundHalfEven (x / 2 powi (expo x - 52))) * 2 powi (expo x - 52)))"
proof -
  have ax: "\<bar>x\<bar> = x" using x by simp
  define q :: rat where "q = 2 powi (expo x - 52)"
  define r where "r = roundHalfEven (x / q)"
  have q: "0 < q" unfolding q_def by (rule zero_less_power_int) simp
  have "1 \<le> r" using r1 by (simp only: r_def q_def)
  then have pos: "0 < of_int r * q" using q by simp
  have "roundToDouble x =
          (if 2 powi 1024 \<le> of_int r * q then PosInf else Fin (of_int r * q))"
    using x pos
    by (simp only: roundToDouble_def Let_def ax q_def [symmetric] r_def [symmetric])
       (simp only: if_True if_False not_less_iff_gr_or_eq less_not_sym [OF x] less_irrefl
          not_sym [OF less_imp_neq [OF pos]] split: if_splits)
  then show ?thesis by (simp only: r_def q_def)
qed

lemma quantum_le:
  assumes "2 powi (- 1074) \<le> x"
  shows "1 \<le> x / 2 powi (expo x - 52)"
proof -
  define q :: rat where "q = 2 powi (expo x - 52)"
  have q: "0 < q" unfolding q_def by (rule zero_less_power_int) simp
  have "q \<le> x"
  proof (cases "2 powi (- 1022) \<le> x")
    case True
    have "q \<le> 2 powi (expo x)"
      unfolding q_def by (intro power_int_increasing) simp_all
    also have "\<dots> \<le> x" using True by (rule expo_le)
    finally show ?thesis .
  next
    case False
    then have "x < 2 powi (- 1022)" by (simp only: not_le)
    then have "expo x = - 1022" by (rule expo_low)
    then have "q = 2 powi (- 1074)" unfolding q_def by (simp only:) simp
    then show ?thesis using assms by (simp only:)
  qed
  then show ?thesis using q by (simp add: field_simps q_def [symmetric])
qed

lemma roundToDouble_overflow:
  assumes big: "2 powi 1024 \<le> x"
  shows "roundToDouble x = PosInf"
proof -
  have "(0::rat) < 2 powi 1024" by (rule zero_less_power_int) simp
  then have x: "0 < x" using big by (rule less_le_trans)
  have "(2::rat) powi (- 1074) \<le> 2 powi 1024" by (intro power_int_increasing) simp_all
  then have "2 powi (- 1074) \<le> x" using big by (rule order_trans)
  then have r1: "1 \<le> roundHalfEven (x / 2 powi (expo x - 52))"
    using roundHalfEven_ge [of 1] quantum_le [of x] by simp
  note u = roundToDouble_unfold_pos [OF x r1]
  have "(2::rat) powi 1023 \<le> 2 powi 1024" by (intro power_int_increasing) simp_all
  then have e: "expo x = 1023" using big by (intro expo_top) (rule order_trans)
  have q: "(2::rat) powi 1024 = of_int (2 ^ 53) * 2 powi (1023 - 52)"
  proof -
    have "(2::rat) powi (53 + (1023 - 52)) = 2 powi 53 * 2 powi (1023 - 52)"
      by (rule power_int_add) simp
    then show ?thesis by simp
  qed
  have "of_int (2 ^ 53) \<le> x / 2 powi (1023 - 52)"
    using big unfolding q by (simp add: field_simps)
  then have "2 ^ 53 \<le> roundHalfEven (x / 2 powi (1023 - 52))"
    by (rule roundHalfEven_ge)
  then have "of_int (2 ^ 53) * (2::rat) powi (1023 - 52)
      \<le> of_int (roundHalfEven (x / 2 powi (1023 - 52))) * 2 powi (1023 - 52)"
    by (intro mult_right_mono) simp_all
  then have "2 powi 1024 \<le> of_int (roundHalfEven (x / 2 powi (1023 - 52))) * (2::rat) powi (1023 - 52)"
    by (simp only: q)
  then show ?thesis
    using u unfolding e by (simp only: if_True)
qed

lemma roundToDouble_scale:
  assumes grid: "h = of_int n * 2 powi (- 1074)" and h: "0 < h"
    and fin: "roundToDouble (2 * h) = Fin Y"
  shows "roundToDouble h = Fin (Y / 2) \<and> 0 < Y"
proof -
  define g :: rat where "g = 2 powi (- 1074)"
  have g: "0 < g" unfolding g_def by (rule zero_less_power_int) simp
  have hg: "h = of_int n * g" using grid by (simp only: g_def)
  have n: "1 \<le> n"
  proof (rule ccontr)
    assume "\<not> 1 \<le> n"
    then have "of_int n \<le> (0::rat)" by simp
    then have "of_int n * g \<le> 0" using g by (simp add: mult_le_0_iff)
    then show False using h hg by simp
  qed
  have gh: "g \<le> h"
  proof -
    have "1 * g \<le> of_int n * g" using n g by (intro mult_right_mono) simp_all
    then show ?thesis using hg by simp
  qed
  have g2h: "g \<le> 2 * h" using gh h by simp
  have r1: "1 \<le> roundHalfEven (h / 2 powi (expo h - 52))"
    using roundHalfEven_ge [of 1] quantum_le [of h] gh by (simp add: g_def)
  have r2: "1 \<le> roundHalfEven (2 * h / 2 powi (expo (2 * h) - 52))"
    using roundHalfEven_ge [of 1] quantum_le [of "2 * h"] g2h by (simp add: g_def)
  note uh = roundToDouble_unfold_pos [OF h r1]
  have h2: "0 < 2 * h" using h by simp
  note u2h = roundToDouble_unfold_pos [OF h2 r2]
  have small: "2 * h < 2 powi 1024"
  proof (rule ccontr)
    assume "\<not> 2 * h < 2 powi 1024"
    then have "2 powi 1024 \<le> 2 * h" by (simp only: not_less)
    then have "roundToDouble (2 * h) = PosInf" by (rule roundToDouble_overflow)
    then show False using fin by simp
  qed
  show ?thesis
  proof (cases "2 powi (- 1022) \<le> h")
    case True
    define m where "m = expo h"
    have A: "2 powi m \<le> h" unfolding m_def using True by (rule expo_le)
    have hs: "h < 2 powi 1024" using small h by simp
    have B: "h < 2 powi (m + 1)" unfolding m_def using hs by (rule expo_upper)
    have "2 * h < 2 * 2 powi 1023" using small two_powi_Suc [of 1023] by simp
    then have "h < 2 powi 1023" by simp
    then have "(2::rat) powi m < 2 powi 1023" using A by simp
    then have m1: "m < 1023" by (rule two_powi_less_imp)
    have m0: "- 1022 \<le> m" unfolding m_def by (rule expo_ge)
    have e2: "expo (2 * h) = m + 1"
    proof (rule expo_eq)
      show "- 1022 \<le> m + 1" using m0 by simp
      show "m + 1 \<le> 1023" using m1 by simp
      show "2 powi (m + 1) \<le> 2 * h" using A by (simp add: two_powi_Suc)
      show "2 * h < 2 powi (m + 1 + 1)" using B two_powi_Suc [of "m + 1"] by simp
    qed
    define q :: rat where "q = 2 powi (m - 52)"
    have q: "0 < q" unfolding q_def by (rule zero_less_power_int) simp
    have q2: "2 powi (m + 1 - 52) = 2 * q"
      using two_powi_Suc [of "m - 52"] by (simp add: q_def algebra_simps)
    define r where "r = roundHalfEven (h / q)"
    have same: "2 * h / (2 * q) = h / q" by simp
    have rh: "roundToDouble h = (if 2 powi 1024 \<le> of_int r * q then PosInf else Fin (of_int r * q))"
      using uh by (simp only: m_def [symmetric] q_def [symmetric] r_def [symmetric])
    have r2h: "roundToDouble (2 * h) =
        (if 2 powi 1024 \<le> of_int r * (2 * q) then PosInf else Fin (of_int r * (2 * q)))"
      using u2h by (simp only: e2 q2 same r_def [symmetric])
    have rpos: "0 < of_int r * q"
      using r1 q by (simp add: m_def [symmetric] q_def [symmetric] r_def [symmetric])
    from r2h fin have Y: "Y = of_int r * (2 * q)" and nb: "\<not> 2 powi 1024 \<le> of_int r * (2 * q)"
      by (auto split: if_splits)
    have "of_int r * q \<le> of_int r * (2 * q)" using rpos by (simp add: mult.commute)
    then have "\<not> 2 powi 1024 \<le> of_int r * q" using nb by linarith
    then have "roundToDouble h = Fin (of_int r * q)" using rh by (simp only: if_False)
    then show ?thesis using Y rpos by (simp add: mult.commute)
  next
    case False
    then have lo: "h < 2 powi (- 1022)" by (simp only: not_le)
    then have e1: "expo h = - 1022" by (rule expo_low)
    have e2: "expo (2 * h) = - 1022"
    proof (cases "2 powi (- 1022) \<le> 2 * h")
      case True
      have "2 * h < 2 * 2 powi (- 1022)" using lo by simp
      then have "2 * h < 2 powi (- 1022 + 1)" by (simp only: two_powi_Suc)
      then show ?thesis using True by (intro expo_eq) simp_all
    next
      case False
      then have "2 * h < 2 powi (- 1022)" by (simp only: not_le)
      then show ?thesis by (rule expo_low)
    qed
    have qg: "(2::rat) powi (- 1022 - 52) = g" by (simp add: g_def)
    have d1: "h / g = of_int n" using hg g by simp
    have d2: "2 * h / g = of_int (2 * n)" using hg g by simp
    have bound: "(2::rat) powi (- 1022) \<le> 2 powi 1023" by (intro power_int_increasing) simp_all
    have b1: "\<not> 2 powi 1024 \<le> of_int n * g"
    proof -
      have "h < 2 * h" using h by simp
      then have "h < 2 powi 1024" using small by (rule less_trans)
      then have "of_int n * g < 2 powi 1024" by (simp only: hg)
      then show ?thesis by (simp only: not_le)
    qed
    have b2: "\<not> 2 powi 1024 \<le> of_int (2 * n) * g"
    proof -
      have "of_int (2 * n) * g = 2 * h" using hg by simp
      then have "of_int (2 * n) * g < 2 powi 1024" using small by (simp only:)
      then show ?thesis by (simp only: not_le)
    qed
    have rh: "roundToDouble h = Fin (of_int n * g)"
      using uh b1 by (simp only: e1 qg d1 roundHalfEven_of_int if_False)
    have r2h: "roundToDouble (2 * h) = Fin (of_int (2 * n) * g)"
      using u2h b2 by (simp only: e2 qg d2 roundHalfEven_of_int if_False)
    from r2h fin have "Y = 2 * h" using hg by simp
    then show ?thesis using rh hg h by simp
  qed
qed

lemma normalizeScore_ieee_midpoint:
  assumes "isDouble mn" "isDouble mx" "isFinite mn" "isFinite mx" "dlt mn mx"
    and s: "isDouble s" "isFinite s" "2 * valueOf s = valueOf mn + valueOf mx"
    and w: "isFinite (dsub mx mn)"
  shows "normalizeScore_ieee s (mn, mx) = 0"
proof -
  have lt: "valueOf mn < valueOf mx" using assms dlt_finite by simp
  define h where "h = valueOf s - valueOf mn"
  have h: "0 < h" and h2: "2 * h = valueOf mx - valueOf mn"
    using lt s(3) by (simp_all add: h_def)
  obtain ns nm :: int where "valueOf s = of_int ns * 2 powi (- 1074)"
    and "valueOf mn = of_int nm * 2 powi (- 1074)"
    using valueOf_grid assms(1) s(1) by blast
  then have grid: "h = of_int (ns - nm) * 2 powi (- 1074)"
    by (simp add: h_def algebra_simps)
  have ds: "dsub s mn = roundToDouble h"
    using assms(3) s(2) h by (cases s; cases mn) (auto simp: dsub_def h_def)
  have dw: "dsub mx mn = roundToDouble (2 * h)"
    using assms(3,4) lt by (cases mx; cases mn) (auto simp: dsub_def h2)
  obtain Y where Y: "dsub mx mn = Fin Y"
    using dsub_width [OF assms(1-5)] w by auto
  have "roundToDouble h = Fin (Y / 2) \<and> 0 < Y"
    using roundToDouble_scale [OF grid h] Y dw by simp
  then show ?thesis
    using normalizeScore_ieee_half [of "Y / 2" s mn mx] ds Y by simp
qed


lemma roundToDouble_minus:
  assumes "0 < x" "roundToDouble x = Fin y" "0 < y"
  shows "roundToDouble (- x) = Fin (- y)"
  using assms by (auto simp: roundToDouble_def Let_def split: if_splits)

lemma double_96: "roundToDouble (48 / 5) = Fin (5404319552844595 / 2 ^ 49)"
  using roundToDouble_eval [of "48 / 5" 3 5404319552844595] by simp

lemma double_24: "roundToDouble 24 = Fin 24"
  using roundToDouble_eval [of 24 4 "3 * 2 ^ 51"] by simp

lemma double_48: "roundToDouble 48 = Fin 48"
  using roundToDouble_eval [of 48 5 "3 * 2 ^ 51"] by simp

lemma double_336:
  "roundToDouble (5404319552844595 / 2 ^ 49 + 24) = Fin (4728779608739021 / 2 ^ 47)"
  using roundToDouble_eval [of "5404319552844595 / 2 ^ 49 + 24" 5 4728779608739021] by simp

lemma double_07up:
  "roundToDouble (4728779608739021 / 2 ^ 47 / 48) = Fin (6305039478318695 / 2 ^ 53)"
  using roundToDouble_eval [of "4728779608739021 / 2 ^ 47 / 48" "- 1" 6305039478318695] by simp

lemma isDouble_examples:
  "isDouble (Fin (5404319552844595 / 2 ^ 49))" "isDouble (Fin 24)" "isDouble (Fin (- 24))"
  "isDouble (Fin 0)"
proof -
  show "isDouble (Fin (5404319552844595 / 2 ^ 49))"
    using roundToDouble_eval [of "5404319552844595 / 2 ^ 49" 3 5404319552844595] by simp
  show "isDouble (Fin 24)" by (simp add: double_24)
  show "isDouble (Fin (- 24))"
    using roundToDouble_minus [of 24 24] by (simp add: double_24)
  show "isDouble (Fin 0)" by (simp add: roundToDouble_0)
qed

lemma normalizeScore_ieee_96:
  "normalizeScore_ieee (Fin (5404319552844595 / 2 ^ 49)) (Fin (- 24), Fin 24) = 1"
proof -
  have a: "dsub (Fin (5404319552844595 / 2 ^ 49)) (Fin (- 24)) = Fin (4728779608739021 / 2 ^ 47)"
    using double_336 by (simp add: dsub_def)
  have b: "dsub (Fin 24) (Fin (- 24)) = Fin 48"
    using double_48 by (simp add: dsub_def)
  have c: "ddiv (Fin (4728779608739021 / 2 ^ 47)) (Fin 48) = Fin (6305039478318695 / 2 ^ 53)"
    using double_07up by (simp add: ddiv_def isZero_def)
  have d: "\<not> dle (Fin (6305039478318695 / 2 ^ 53)) (Fin (3602879701896397 / 2 ^ 55))"
    "\<not> dle (Fin (6305039478318695 / 2 ^ 53)) (Fin (5404319552844595 / 2 ^ 54))"
    "\<not> dle (Fin (6305039478318695 / 2 ^ 53)) (Fin (3152519739159347 / 2 ^ 52))"
    "dle (Fin (6305039478318695 / 2 ^ 53)) (Fin (8106479329266893 / 2 ^ 53))"
    by (simp_all add: dle_def)
  show ?thesis
    by (simp only: normalizeScore_ieee_def prod.case Let_def a b c lit01 lit03 lit07 lit09 d
        if_True if_False)
qed

lemma double_huge: "roundToDouble (2 ^ 1023) = Fin (2 ^ 1023)"
  using roundToDouble_eval [of "2 ^ 1023" 1023 "2 ^ 52"] by simp

lemma normalizeScore_ieee_overflow:
  "normalizeScore_ieee (Fin 0) (Fin (- (2 ^ 1023)), Fin (2 ^ 1023)) = - 2"
proof -
  have a: "dsub (Fin 0) (Fin (- (2 ^ 1023))) = Fin (2 ^ 1023)"
    using double_huge by (simp add: dsub_def)
  have b: "dsub (Fin (2 ^ 1023)) (Fin (- (2 ^ 1023))) = PosInf"
    using roundToDouble_overflow [of "2 ^ 1023 - - (2 ^ 1023)"] by (simp add: dsub_def)
  have c: "ddiv (Fin (2 ^ 1023)) PosInf = Fin 0"
    by (simp add: ddiv_def signedZero_def)
  show ?thesis
    by (simp only: normalizeScore_ieee_def prod.case Let_def a b c dle_lits if_True)
qed

text \<open>
  C2, as the claim states it, fails. The double nearest to \<open>9.6\<close> lies below \<open>9.6\<close>, so
  on the scale \<open>[-24, 24]\<close> its exact quotient \<open>t\<close> lies in \<open>(0.3, 0.7]\<close>, the bucket \<open>0\<close>
  of the claim; \<open>normalizeScore\<close> computes a quotient above the double \<open>0.7\<close> and
  returns \<open>1\<close>. And on the scale \<open>[-(2 ^ 1023), 2 ^ 1023]\<close> the width overflows to
  \<open>Infinity\<close>, the quotient of the midpoint \<open>0\<close> is \<open>0\<close>, and the result is \<open>-2\<close>.
\<close>

theorem normalizeScore_exact_quotient_fails:
  "isDouble (Fin (5404319552844595 / 2 ^ 49))
   \<and> roundToDouble (48 / 5) = Fin (5404319552844595 / 2 ^ 49)
   \<and> isDouble (Fin (- 24)) \<and> isDouble (Fin 24) \<and> dlt (Fin (- 24)) (Fin 24)
   \<and> normalizeScore_ieee (Fin (5404319552844595 / 2 ^ 49)) (Fin (- 24), Fin 24) = 1
   \<and> (3 / 10 :: rat) < (5404319552844595 / 2 ^ 49 - (- 24)) / (24 - (- 24))
   \<and> (5404319552844595 / 2 ^ 49 - (- 24)) / (24 - (- 24)) \<le> (7 / 10 :: rat)
   \<and> dlt (Fin (- (2 ^ 1023))) (Fin (2 ^ 1023))
   \<and> 2 * valueOf (Fin 0) = valueOf (Fin (- (2 ^ 1023))) + valueOf (Fin (2 ^ 1023))
   \<and> normalizeScore_ieee (Fin 0) (Fin (- (2 ^ 1023)), Fin (2 ^ 1023)) = - 2"
  using isDouble_examples double_96 normalizeScore_ieee_96 normalizeScore_ieee_overflow
  by (simp add: dlt_def dle_def)

text \<open>
  C2, amended: for finite doubles \<open>min < max\<close>, \<open>normalizeScore\<close> returns the bucket of the
  double-precision quotient \<open>t\<close>, the rounded \<open>score - min\<close> divided by the rounded
  \<open>max - min\<close> and rounded again, under the inclusive upper thresholds taken in
  ascending order, which are the doubles nearest to \<open>0.1\<close>, \<open>0.3\<close>, \<open>0.7\<close> and \<open>0.9\<close>;
  \<open>min\<close> maps to \<open>-2\<close> and \<open>max\<close> to \<open>2\<close>; and the double that is exactly the midpoint
  of \<open>min\<close> and \<open>max\<close> maps to \<open>0\<close> whenever \<open>max - min\<close> does not overflow.
\<close>

theorem normalizeScore_ieee_buckets:
  assumes "isDouble mn" "isDouble mx" "isFinite mn" "isFinite mx" "dlt mn mx"
  shows "normalizeScore_ieee s (mn, mx) =
           (let t = ddiv (dsub s mn) (dsub mx mn) in
            if dle t (Fin (3602879701896397 / 2 ^ 55)) then - 2
            else if dle t (Fin (5404319552844595 / 2 ^ 54)) then - 1
            else if dle t (Fin (3152519739159347 / 2 ^ 52)) then 0
            else if dle t (Fin (8106479329266893 / 2 ^ 53)) then 1
            else 2)
         \<and> roundToDouble (1 / 10) = Fin (3602879701896397 / 2 ^ 55)
         \<and> roundToDouble (3 / 10) = Fin (5404319552844595 / 2 ^ 54)
         \<and> roundToDouble (7 / 10) = Fin (3152519739159347 / 2 ^ 52)
         \<and> roundToDouble (9 / 10) = Fin (8106479329266893 / 2 ^ 53)
         \<and> normalizeScore_ieee mn (mn, mx) = - 2
         \<and> normalizeScore_ieee mx (mn, mx) = 2
         \<and> (isDouble m \<and> isFinite m \<and> 2 * valueOf m = valueOf mn + valueOf mx
              \<and> isFinite (dsub mx mn)
             \<longrightarrow> normalizeScore_ieee m (mn, mx) = 0)"
proof -
  have g: "normalizeScore_ieee s (mn, mx) =
           (let t = ddiv (dsub s mn) (dsub mx mn) in
            if dle t (Fin (3602879701896397 / 2 ^ 55)) then - 2
            else if dle t (Fin (5404319552844595 / 2 ^ 54)) then - 1
            else if dle t (Fin (3152519739159347 / 2 ^ 52)) then 0
            else if dle t (Fin (8106479329266893 / 2 ^ 53)) then 1
            else 2)"
    by (simp only: normalizeScore_ieee_def prod.case lit01 lit03 lit07 lit09)
  have m: "normalizeScore_ieee m (mn, mx) = 0"
    if "isDouble m \<and> isFinite m \<and> 2 * valueOf m = valueOf mn + valueOf mx
        \<and> isFinite (dsub mx mn)"
    using normalizeScore_ieee_midpoint [OF assms, of m] that by blast
  show ?thesis
    using g lit01 lit03 lit07 lit09 normalizeScore_ieee_min [OF assms]
      normalizeScore_ieee_max [OF assms] m by blast
qed

theorem normalizeScore_ieee_buckets_witness:
  "isDouble (Fin (- 24)) \<and> isDouble (Fin 24) \<and> isFinite (Fin (- 24)) \<and> isFinite (Fin 24)
   \<and> dlt (Fin (- 24)) (Fin 24)
   \<and> isDouble (Fin 0) \<and> isFinite (Fin 0)
   \<and> 2 * valueOf (Fin 0) = valueOf (Fin (- 24)) + valueOf (Fin 24)
   \<and> isFinite (dsub (Fin 24) (Fin (- 24)))
   \<and> normalizeScore_ieee (Fin (- 24)) (Fin (- 24), Fin 24) = - 2
   \<and> normalizeScore_ieee (Fin 24) (Fin (- 24), Fin 24) = 2
   \<and> normalizeScore_ieee (Fin 0) (Fin (- 24), Fin 24) = 0"
proof -
  have d: "isDouble (Fin (- 24))" "isDouble (Fin 24)" "isDouble (Fin 0)"
    using isDouble_examples by simp_all
  have f: "isFinite (Fin (- 24))" "isFinite (Fin 24)" "isFinite (Fin 0)"
    by simp_all
  have l: "dlt (Fin (- 24)) (Fin 24)" by (simp add: dlt_def dle_def)
  have v: "2 * valueOf (Fin 0) = valueOf (Fin (- 24)) + valueOf (Fin 24)" by simp
  have w: "isFinite (dsub (Fin 24) (Fin (- 24)))"
    using double_48 by (simp add: dsub_def)
  show ?thesis
    using d f l v w
      normalizeScore_ieee_buckets [OF d(1) d(2) f(1) f(2) l, of "Fin 0" "Fin 0"]
    by blast
qed

section \<open>The response transformer\<close>







































section \<open>Retries\<close>

lemma fetchWithRetry_all_fail:
  assumes fail: "\<And>k. attempt (net url k) = Inl (err k)"
    and le: "int r \<le> m"
  shows "fetchWithRetry net m url r = (backoffTrace url r (nat m), Inl (err (nat m)))"
  using le
proof (induction "nat m - r" arbitrary: r)
  case 0
  then have r: "r = nat m" by arith
  have nlt: "\<not> int r < m" using 0 by arith
  have emp: "[r..<nat m] = []" and last: "err r = err (nat m)" using r by simp_all
  show ?case
    using fail [of r] nlt emp last
    by (simp add: fetchWithRetry.simps [of net m url r] backoffTrace_def)
next
  case (Suc d)
  then have lt: "int r < m" and r: "r < nat m" by simp_all
  have d: "d = nat m - (r + 1)" using Suc by simp
  have le': "int (r + 1) \<le> m" using lt by simp
  have ih: "fetchWithRetry net m url (r + 1) = (backoffTrace url (r + 1) (nat m), Inl (err (nat m)))"
    using Suc.hyps(1) [OF d le'] .
  have up: "[r..<nat m] = r # [r + 1..<nat m]"
    using r by (simp add: upt_conv_Cons)
  show ?case
    using fail [of r] lt ih
    by (simp add: fetchWithRetry.simps [of net m url r] backoffTrace_def up)
qed

lemma fetches_backoffTrace: "r \<le> m \<Longrightarrow> fetches (backoffTrace url r m) = 1 + (m - r)"
  by (induction m) (auto simp: fetches_def backoffTrace_def Suc_diff_le)

lemma delays_backoffTrace: "delays (backoffTrace url r m) = map (\<lambda>k. 2 ^ k * 1000) [r..<m]"
  by (induction m) (auto simp: delays_def backoffTrace_def)

text \<open>
  Where the client's \<open>maxRetries\<close> field is not negative and every attempt fails, one
  \<open>getHeatmap\<close> makes \<open>1 + maxRetries\<close> fetches, waits \<open>2 ^ k\<close> seconds after the failed
  attempt number \<open>k\<close> (counted from zero) and ends with the error of the last attempt.
\<close>

lemma getHeatmap_all_fail:
  assumes "\<And>k. attempt (net (baseUrl this @ ''/heatmap?asset='' @ enc a) k) = Inl (err k)"
    and "0 \<le> maxRetries this"
  shows "getHeatmap enc net this a =
           (backoffTrace (baseUrl this @ ''/heatmap?asset='' @ enc a) 0 (nat (maxRetries this)),
            Inl (err (nat (maxRetries this))))"
    and "fetches (fst (getHeatmap enc net this a)) = 1 + nat (maxRetries this)"
    and "delays (fst (getHeatmap enc net this a))
           = map (\<lambda>k. 2 ^ k * 1000) [0..<nat (maxRetries this)]"
proof -
  show g: "getHeatmap enc net this a =
           (backoffTrace (baseUrl this @ ''/heatmap?asset='' @ enc a) 0 (nat (maxRetries this)),
            Inl (err (nat (maxRetries this))))"
    using assms(2) fetchWithRetry_all_fail [of net _ err 0 "maxRetries this", OF assms(1)]
    by (simp add: getHeatmap_def Let_def)
  show "fetches (fst (getHeatmap enc net this a)) = 1 + nat (maxRetries this)"
    by (simp add: g fetches_backoffTrace)
  show "delays (fst (getHeatmap enc net this a))
           = map (\<lambda>k. 2 ^ k * 1000) [0..<nat (maxRetries this)]"
    by (simp add: g delays_backoffTrace)
qed

text \<open>
  The field is the configured value when that is not zero, and \<open>3\<close> when nothing or zero
  is configured.
\<close>

lemma newHeatmapApiClient_maxRetries:
  "maxRetries (newHeatmapApiClient (configWith None)) = 3"
  "n \<noteq> 0 \<Longrightarrow> maxRetries (newHeatmapApiClient (configWith (Some n))) = n"
  "maxRetries (newHeatmapApiClient (configWith (Some 0))) = 3"
  by (simp_all add: newHeatmapApiClient_def configWith_def)

lemma attempt_server500:
  "attempt (server500 url k) = Inl (Error ''HTTP 500: Internal Server Error'')"
proof -
  have "decimal 500 = ''500''" by code_simp
  then show ?thesis by (simp add: attempt_def server500_def)
qed

text \<open>
  C1: the claim asks, for every configured non-negative \<open>maxRetries\<close>, for exactly
  \<open>1 + maxRetries\<close> attempts against an endpoint that always fails. With \<open>maxRetries = 0\<close>
  configured that is one attempt; the client built from this configuration makes four
  fetches, with the delays of three retries between them, before it gives the error up.
\<close>

theorem maxRetries_zero_four_attempts:
  "getHeatmap (\<lambda>s. s) server500 (newHeatmapApiClient (configWith (Some 0))) ''EUR''
     = ([Fetch ''http://h/heatmap?asset=EUR'', Delay 1000,
         Fetch ''http://h/heatmap?asset=EUR'', Delay 2000,
         Fetch ''http://h/heatmap?asset=EUR'', Delay 4000,
         Fetch ''http://h/heatmap?asset=EUR''],
        Inl (Error ''HTTP 500: Internal Server Error''))
   \<and> fetches (fst (getHeatmap (\<lambda>s. s) server500
         (newHeatmapApiClient (configWith (Some 0))) ''EUR'')) = 4"
  by code_simp

section \<open>Validation\<close>

lemma decimal_chars: "c \<in> set (decimal n) \<Longrightarrow> \<exists>k<10. c = digitChar k"
proof (induction n rule: decimal.induct)
  case (1 n)
  show ?case
  proof (cases "n < 10")
    case True
    then show ?thesis using "1.prems" by (auto simp: decimal.simps [of n])
  next
    case False
    then have "c \<in> set (decimal (n div 10)) \<or> c = digitChar (n mod 10)"
      using "1.prems" by (auto simp: decimal.simps [of n])
    then show ?thesis
    proof
      assume "c \<in> set (decimal (n div 10))"
      then show ?thesis using "1.IH" False by simp
    next
      assume "c = digitChar (n mod 10)"
      moreover have "n mod 10 < 10" by simp
      ultimately show ?thesis by blast
    qed
  qed
qed

lemma decimal_not_asset: "decimal n \<noteq> ''asset''"
proof
  assume "decimal n = ''asset''"
  then have "CHR ''a'' \<in> set (decimal n)" by simp
  then obtain k where k: "k < 10" "CHR ''a'' = digitChar k"
    using decimal_chars by blast
  then have "of_char (CHR ''a'') = (of_char (char_of (48 + k)) :: nat)" by simp
  then show False using k(1) by simp
qed

lemma validateResponse_accepts_iff:
  "validateResponse d = Inr d' \<longleftrightarrow>
     d' = d \<and> (\<exists>kvs. d = JObj kvs \<and> (\<forall>f \<in> set required. f \<in> fst ` set kvs)
        \<and> (\<exists>ps. getField ''pillars'' d = Some (JArr ps))
        \<and> (\<exists>a b. getField ''scale'' d = Some (JArr [a, b])))"
proof (cases d)
  case (JObj kvs)
  have arr: "isArray x \<longleftrightarrow> (\<exists>ps. x = Some (JArr ps))" for x
    by (cases x rule: isArray.cases) simp_all
  have two: "isArray x \<and> arrayLength x = 2 \<longleftrightarrow> (\<exists>a b. x = Some (JArr [a, b]))" for x
    by (cases x rule: isArray.cases) (auto simp: length_Suc_conv numeral_2_eq_2)
  have req: "find (\<lambda>f. \<not> hasField f d) required = None \<longleftrightarrow> (\<forall>f \<in> set required. f \<in> fst ` set kvs)"
    using JObj by (auto simp: find_None_iff)
  show ?thesis
  proof (cases "find (\<lambda>f. \<not> hasField f d) required")
    case None
    then show ?thesis
      using req two [of "getField ''scale'' d"] arr [of "getField ''pillars'' d"] JObj
      by (auto simp: validateResponse_def)
  next
    case (Some f)
    then show ?thesis
      using req JObj by (auto simp: validateResponse_def)
  qed
next
  case (JArr xs)
  have "\<not> hasField ''asset'' d"
    using JArr decimal_not_asset by (auto dest!: sym [of "''asset''"])
  then obtain f where "find (\<lambda>f. \<not> hasField f d) required = Some f"
    by (cases "find (\<lambda>f. \<not> hasField f d) required") (auto simp: find_None_iff required_def)
  then show ?thesis using JArr by (simp add: validateResponse_def)
qed (simp_all add: validateResponse_def)

text \<open>
  C6: the claim has \<open>validateResponse\<close> accept only a \<open>scale\<close> of exactly two numeric
  elements. The payload \<open>looseScale\<close>, whose \<open>scale\<close> is an array of two strings, is
  accepted and returned as it is: the check looks at the array and its length only.
\<close>

theorem validateResponse_accepts_string_scale:
  "validateResponse looseScale = Inr looseScale
   \<and> getField ''scale'' looseScale = Some (JArr [JStr ''a'', JStr ''b''])"
  by code_simp

theorem validateResponse_accepts_string_scale_witness:
  "validateResponse
     (JObj [(''asset'', JStr ''EUR''), (''score'', JNum 1),
            (''scale'', JArr [JStr ''a'', JStr ''b'']), (''pillars'', JArr []),
            (''as_of'', JStr ''2025-08-01T00:00:00Z''), (''version'', JStr ''1'')])
   = Inr (JObj [(''asset'', JStr ''EUR''), (''score'', JNum 1),
            (''scale'', JArr [JStr ''a'', JStr ''b'']), (''pillars'', JArr []),
            (''as_of'', JStr ''2025-08-01T00:00:00Z''), (''version'', JStr ''1'')])"
  using validateResponse_accepts_string_scale by (simp add: looseScale_def)

section \<open>The batch\<close>

lemma settled_successes:
  "map (the \<circ> settledValue) (filter isFulfilled (allSettled ps))
   = concat (map (\<lambda>p. case p of Inl e \<Rightarrow> [] | Inr v \<Rightarrow> [v]) ps)"
  by (induction ps) (auto simp: allSettled_def split: sum.splits)

lemma getMultipleHeatmaps_successes:
  "getMultipleHeatmaps gh as =
     Inr (concat (map (\<lambda>(i, a). case gh i a of Inl e \<Rightarrow> [] | Inr v \<Rightarrow> [v]) (enumerate 0 as)))"
proof -
  have "(\<lambda>p. case p of Inl e \<Rightarrow> [] | Inr v \<Rightarrow> [v]) \<circ> (\<lambda>(i, a). gh i a)
        = (\<lambda>(i, a). case gh i a of Inl e \<Rightarrow> [] | Inr v \<Rightarrow> [v])"
    by (auto simp: fun_eq_iff)
  then show ?thesis
    by (simp add: getMultipleHeatmaps_def Let_def settled_successes)
qed

lemma enumerate_indices: "enumerate 0 as = map (\<lambda>i. (i, as ! i)) [0..<length as]"
  by (simp add: enumerate_eq_zip zip_eq_conv comp_def map_nth)

lemma getMultipleHeatmaps_by_index:
  "getMultipleHeatmaps gh as =
     Inr (map (\<lambda>i. projr (gh i (as ! i))) (filter (\<lambda>i. \<not> isl (gh i (as ! i))) [0..<length as]))"
proof -
  have "concat (map (\<lambda>i. case gh i (as ! i) of Inl e \<Rightarrow> [] | Inr v \<Rightarrow> [v]) ns)
        = map (\<lambda>i. projr (gh i (as ! i))) (filter (\<lambda>i. \<not> isl (gh i (as ! i))) ns)" for ns
    by (induction ns) (auto split: sum.splits)
  then show ?thesis
    by (simp add: getMultipleHeatmaps_successes enumerate_indices comp_def)
qed

lemma subseq_indices:
  "subseq (map (\<lambda>i. as ! i) (filter P [0..<length as])) as"
proof -
  have "subseq (map (\<lambda>i. as ! i) (filter P [0..<length as])) (map (\<lambda>i. as ! i) [0..<length as])"
    by (intro subseq_map subseq_filter_left)
  then show ?thesis by (simp add: map_nth)
qed


lemma all_rejected_no_index:
  assumes "\<forall>i<length as. isl (gh i (as ! i))"
  shows "filter (\<lambda>i. \<not> isl (gh i (as ! i))) [0..<length as] = []"
  using assms by (simp add: filter_empty_conv)

text \<open>
  C4: \<open>getMultipleHeatmaps\<close> never throws for a failing asset. Its result is the list
  of the values of the calls that succeeded, the failed calls leaving nothing; when every
  call fails the result is the empty list, and the refresh cycle around it ends as a
  successful cycle: \<open>data = []\<close>, \<open>error = null\<close>, \<open>loading = false\<close>, \<open>lastUpdated\<close> set.
\<close>

theorem getMultipleHeatmaps_drops_failures:
  "getMultipleHeatmaps gh as =
     Inr (concat (map (\<lambda>(i, a). case gh i a of Inl e \<Rightarrow> [] | Inr v \<Rightarrow> [v]) (enumerate 0 as)))
   \<and> ((\<forall>i<length as. isl (gh i (as ! i))) \<longrightarrow>
        getMultipleHeatmaps gh as = Inr []
        \<and> data (loadData (getMultipleHeatmaps gh as) now s) = []
        \<and> error (loadData (getMultipleHeatmaps gh as) now s) = None
        \<and> loading (loadData (getMultipleHeatmaps gh as) now s) = False
        \<and> lastUpdated (loadData (getMultipleHeatmaps gh as) now s) = Some (DateAt now))"
proof -
  have first: "getMultipleHeatmaps gh as =
     Inr (concat (map (\<lambda>(i, a). case gh i a of Inl e \<Rightarrow> [] | Inr v \<Rightarrow> [v]) (enumerate 0 as)))"
    by (rule getMultipleHeatmaps_successes)
  have second: "getMultipleHeatmaps gh as = Inr []
        \<and> data (loadData (getMultipleHeatmaps gh as) now s) = []
        \<and> error (loadData (getMultipleHeatmaps gh as) now s) = None
        \<and> loading (loadData (getMultipleHeatmaps gh as) now s) = False
        \<and> lastUpdated (loadData (getMultipleHeatmaps gh as) now s) = Some (DateAt now)"
    if "\<forall>i<length as. isl (gh i (as ! i))"
  proof -
    have e: "getMultipleHeatmaps gh as = Inr []"
      using all_rejected_no_index [of as gh] that by (simp add: getMultipleHeatmaps_by_index)
    show ?thesis
      unfolding e by (simp add: loadData_def loadData_settle_def loadData_begin_def)
  qed
  show ?thesis using first second by blast
qed

theorem getMultipleHeatmaps_drops_failures_witness:
  "isl (Inl (Error ''down'') :: thrown + HeatmapResponse)
   \<and> getMultipleHeatmaps (\<lambda>i a. Inl (Error ''down'') :: thrown + HeatmapResponse)
        [''EUR'', ''USD''] = Inr []
   \<and> data (loadData (getMultipleHeatmaps (\<lambda>i a. Inl (Error ''down'')) [''EUR'', ''USD''])
        5 initialState) = []
   \<and> error (loadData (getMultipleHeatmaps (\<lambda>i a. Inl (Error ''down'')) [''EUR'', ''USD''])
        5 initialState) = None"
proof -
  have h: "\<forall>i<length [''EUR'', ''USD'']. isl ((\<lambda>i a. Inl (Error ''down'')) i ([''EUR'', ''USD''] ! i)
        :: thrown + HeatmapResponse)"
    by simp
  have i: "isl (Inl (Error ''down'') :: thrown + HeatmapResponse)"
    by simp
  show ?thesis
    using i h getMultipleHeatmaps_drops_failures
      [of "\<lambda>i a. Inl (Error ''down'')" "[''EUR'', ''USD'']" 5 initialState]
    by blast
qed

text \<open>
  C10: \<open>getMultipleHeatmaps\<close> keeps the order of the request. The result lists the
  values of the successful calls by increasing position in the symbol list, so the
  symbols they answer form a subsequence of that list.
\<close>

theorem getMultipleHeatmaps_keeps_order:
  "getMultipleHeatmaps gh as =
     Inr (map (\<lambda>i. projr (gh i (as ! i)))
            (filter (\<lambda>i. \<not> isl (gh i (as ! i))) [0..<length as]))
   \<and> sorted_wrt (<) (filter (\<lambda>i. \<not> isl (gh i (as ! i))) [0..<length as])
   \<and> subseq (map (\<lambda>i. as ! i) (filter (\<lambda>i. \<not> isl (gh i (as ! i))) [0..<length as])) as"
  using getMultipleHeatmaps_by_index [of gh as] subseq_indices [of as]
  by (simp add: sorted_wrt_filter)

section \<open>The refresh cycle\<close>

text \<open>
  C9: a cycle that ends in the \<open>catch\<close> branch sets \<open>loading\<close> to false and \<open>error\<close> to
  the message of what was thrown, and leaves \<open>data\<close> and \<open>lastUpdated\<close> as they were
  before the cycle; the branch itself touches neither field, whatever the state it
  finds.
\<close>

theorem loadData_error_keeps_data:
  "data (loadData (Inl e) now s) = data s
   \<and> lastUpdated (loadData (Inl e) now s) = lastUpdated s
   \<and> loading (loadData (Inl e) now s) = False
   \<and> error (loadData (Inl e) now s) = Some (errorMessage e)
   \<and> errorMessage (Error m) = m
   \<and> data (loadData_settle (Inl e) now s) = data s
   \<and> lastUpdated (loadData_settle (Inl e) now s) = lastUpdated s"
  by (simp add: loadData_def loadData_settle_def loadData_begin_def errorMessage_def)

section \<open>Teardown\<close>

lemma wellTimed_step:
  assumes "wellTimed w" "step config e w = Some w'"
  shows "wellTimed w' \<and> (phase w = Destroyed \<longrightarrow> phase w' = Destroyed)"
  using assms
  by (cases e)
     (auto simp: wellTimed_def callLoadData_def onMount_def onDestroy_def clearInterval_def
           Let_def split: if_splits option.splits)

lemma wellTimed_exec:
  assumes "wellTimed w" "exec config es w = Some w'"
  shows "wellTimed w' \<and> (phase w = Destroyed \<longrightarrow> phase w' = Destroyed)"
  using assms
proof (induction es arbitrary: w)
  case Nil
  then show ?case by simp
next
  case (Cons e es)
  from Cons.prems obtain w1 where s: "step config e w = Some w1" and r: "exec config es w1 = Some w'"
    by (auto split: option.splits)
  from wellTimed_step [OF Cons.prems(1) s] Cons.IH [OF _ r] show ?case by blast
qed

lemma wellTimed_initial: "wellTimed initialWidget"
  by (simp add: wellTimed_def initialWidget_def)

lemma exec_destroyedInFlight:
  "exec (configWith None) [Mount 1, Destroy] initialWidget = Some destroyedInFlight"
  by (simp add: configWith_def initialWidget_def destroyedInFlight_def onMount_def onDestroy_def
      callLoadData_def clearInterval_def loadData_begin_def initialState_def Let_def)

text \<open>
  C7, as the claim states it, fails: the component is mounted and destroyed while its
  first cycle is waiting; the cycle then completes and writes \<open>loading\<close> and
  \<open>lastUpdated\<close> into the state of the destroyed component.
\<close>

theorem settle_after_destroy_mutates:
  "exec (configWith None) [Mount 1, Destroy] initialWidget = Some destroyedInFlight
   \<and> phase destroyedInFlight = Destroyed
   \<and> loading (state destroyedInFlight) = True
   \<and> lastUpdated (state destroyedInFlight) = None
   \<and> map_option (loading \<circ> state) (step (configWith None) (Settle (Inr []) 7) destroyedInFlight)
       = Some False
   \<and> map_option (lastUpdated \<circ> state)
         (step (configWith None) (Settle (Inr []) 7) destroyedInFlight)
       = Some (Some (DateAt 7))"
  using exec_destroyedInFlight
  by (simp add: destroyedInFlight_def initialState_def loadData_settle_def)

text \<open>
  C7, amended: once the component is destroyed the refresh timer is cancelled, in that
  state and in every later one, so that no tick fires, and neither a click nor a second
  mount or destroy is possible; the only event left is the completion of a cycle that
  was already in flight, and that completion still writes its result into the state.
\<close>

theorem destroyed_only_settles:
  assumes "exec config es initialWidget = Some w" and "phase w = Destroyed"
  shows "armed w = None
         \<and> step config Tick w = None
         \<and> step config Click w = None
         \<and> step config (Mount h) w = None
         \<and> step config Destroy w = None
         \<and> (\<forall>es' w'. exec config es' w = Some w' \<longrightarrow> phase w' = Destroyed \<and> armed w' = None)
         \<and> (inflight w > 0 \<longrightarrow>
              map_option state (step config (Settle outcome now) w)
                = Some (loadData_settle outcome now (state w)))"
proof -
  have wt: "wellTimed w"
    using wellTimed_exec [OF wellTimed_initial assms(1)] by simp
  have a: "armed w = None"
    using wt assms(2) by (auto simp: wellTimed_def)
  have later: "phase w' = Destroyed \<and> armed w' = None" if "exec config es' w = Some w'" for es' w'
  proof -
    from wellTimed_exec [OF wt that] assms(2) have "wellTimed w'" "phase w' = Destroyed"
      by simp_all
    then show ?thesis by (auto simp: wellTimed_def)
  qed
  show ?thesis
    using a assms(2) later by simp
qed

theorem destroyed_only_settles_witness:
  "exec (configWith None) [Mount 1, Destroy] initialWidget = Some destroyedInFlight
   \<and> phase destroyedInFlight = Destroyed
   \<and> armed destroyedInFlight = None
   \<and> step (configWith None) Tick destroyedInFlight = None
   \<and> inflight destroyedInFlight > 0
   \<and> map_option state (step (configWith None) (Settle (Inr []) 7) destroyedInFlight)
       = Some (loadData_settle (Inr []) 7 (state destroyedInFlight))"
proof -
  have p: "phase destroyedInFlight = Destroyed" and i: "inflight destroyedInFlight > 0"
    by (simp_all add: destroyedInFlight_def)
  show ?thesis
    using exec_destroyedInFlight p i
      destroyed_only_settles [OF exec_destroyedInFlight p, of 0 "Inr []" 7]
    by blast
qed

end
